theory Spec2Isabelle
  imports Main "HOL-Library.Sublist"
begin

section \<open>JavaScript values and errors\<close>

text \<open>
  The rows that the database driver hands to the handlers of \<^verbatim>\<open>src/index.js\<close> are
  objects whose fields are \<^verbatim>\<open>null\<close>, numbers or strings; a field that the row does not
  carry reads as \<^verbatim>\<open>undefined\<close>. Numbers are modelled as integers: fractional numbers
  are floating point and are outside this development. No other kind of value (boolean,
  Date, Buffer) is modelled. A string is the list of its characters; every pattern and
  every replacement of the code is ASCII.
\<close>

datatype jsval = JUndefined | JNull | JNum int | JStr string

text \<open>ToBoolean, as used by \<^verbatim>\<open>if (v)\<close>, \<^verbatim>\<open>v || d\<close> and \<^verbatim>\<open>v && e\<close>.\<close>

fun truthy :: "jsval \<Rightarrow> bool" where
  "truthy JUndefined = False"
| "truthy JNull = False"
| "truthy (JNum n) = (n \<noteq> 0)"
| "truthy (JStr s) = (s \<noteq> [])"

text \<open>
  A thrown value. \<open>Error\<close> is what the database driver throws; \<open>TypeError\<close> is what
  the engine throws for a property read on \<^verbatim>\<open>null\<close>/\<^verbatim>\<open>undefined\<close> or a call of a
  non-function. Both carry their \<^verbatim>\<open>message\<close>; the wording of an engine message is
  that of V8 in Node.js 16 and later.
\<close>

datatype error = Error (message: string) | TypeError (message: string)

text \<open>Sequencing of computations that may throw: the first throw ends the evaluation.\<close>

definition and_then :: "error + 'a \<Rightarrow> ('a \<Rightarrow> error + 'b) \<Rightarrow> error + 'b" where
  "and_then m f = (case m of Inl e \<Rightarrow> Inl e | Inr x \<Rightarrow> f x)"

section \<open>decodeHtml\<close>

text \<open>
  \<^verbatim>\<open>s.replace(/pat/g, rep)\<close> for a pattern that is a plain character sequence: scan from
  the left, replace each match and continue behind it. The empty pattern matches before
  every character and at the end.
\<close>

fun replace_all :: "string \<Rightarrow> string \<Rightarrow> string \<Rightarrow> string" where
  "replace_all pat rep [] = (if pat = [] then rep else [])"
| "replace_all pat rep (c # cs) =
     (if pat = [] then rep @ c # replace_all pat rep cs
      else if prefix pat (c # cs) then rep @ replace_all pat rep (drop (length pat - 1) cs)
      else c # replace_all pat rep cs)"

text \<open>
  The seven patterns of \<^verbatim>\<open>decodeHtml\<close> with their replacements, in the order of the
  chain. In the regular expression \<^verbatim>\<open>/\\u003C/g\<close> the \<^verbatim>\<open>\\\<close> is an escaped backslash, so
  the pattern is the six characters backslash, u, 0, 0, 3, C.
\<close>

definition backslash :: char where
  "backslash = CHR 0x5C"

definition entities :: "(string \<times> string) list" where
  "entities =
     [(''&lt;'', ''<''),
      (''&gt;'', ''>''),
      (''&#039;'', [CHR 0x27]),
      (''&quot;'', [CHR 0x22]),
      (''&amp;'', ''&''),
      (backslash # ''u003C'', ''<''),
      (backslash # ''u003E'', ''>'')]"

text \<open>A chain \<^verbatim>\<open>s.replace(p1, r1).replace(p2, r2)...\<close> of such replacements.\<close>

definition replace_chain :: "(string \<times> string) list \<Rightarrow> string \<Rightarrow> string" where
  "replace_chain ps s = foldl (\<lambda>acc (pat, rep). replace_all pat rep acc) s ps"

definition decode_string :: "string \<Rightarrow> string" where
  "decode_string s = replace_chain entities s"

text \<open>
  \<^verbatim>\<open>str?.replace(...).replace(...)\<close>: on \<^verbatim>\<open>undefined\<close> and \<^verbatim>\<open>null\<close> the optional chain
  short-circuits to \<^verbatim>\<open>undefined\<close>; a number has no \<^verbatim>\<open>replace\<close> method, so the call
  throws.
\<close>

fun decodeHtml :: "jsval \<Rightarrow> error + jsval" where
  "decodeHtml JUndefined = Inr JUndefined"
| "decodeHtml JNull = Inr JUndefined"
| "decodeHtml (JNum n) = Inl (TypeError ''str?.replace is not a function'')"
| "decodeHtml (JStr s) = Inr (JStr (decode_string s))"

section \<open>The menu route: grouping rows into categories\<close>

text \<open>
  A row of the menu query. The fields are those of the \<^verbatim>\<open>SELECT\<close>; a field whose name
  is taken in HOL carries the prefix \<open>row_\<close> (\<^verbatim>\<open>id\<close>, \<^verbatim>\<open>title\<close>, \<^verbatim>\<open>image\<close>,
  \<^verbatim>\<open>price\<close>, \<^verbatim>\<open>badge\<close>, \<^verbatim>\<open>rating\<close>, \<^verbatim>\<open>currency\<close>). The group key
  \<^verbatim>\<open>category_id\<close> is \<^verbatim>\<open>menu_category.id\<close>, which the schemas declare an integer and which
  is the key of the left table of the join, so it is never \<^verbatim>\<open>NULL\<close>; every item field is
  a nullable value.
\<close>

record menu_row =
  category_id :: int
  category_name :: jsval
  category_slug :: jsval
  category_description :: jsval
  row_id :: jsval
  row_title :: jsval
  row_image :: jsval
  row_price :: jsval
  item_description :: jsval
  row_badge :: jsval
  row_rating :: jsval
  row_currency :: jsval

text \<open>
  An item of the response. \<open>item_badge\<close> is \<open>None\<close> when the object has no
  \<^verbatim>\<open>badge\<close> key.
\<close>

record menu_item =
  item_image :: jsval
  item_title :: jsval
  item_price :: string
  item_currency :: jsval
  item_rating :: jsval
  item_text :: jsval
  item_badge :: "jsval option"

record menu_category =
  cat_name :: jsval
  cat_slug :: jsval
  cat_description :: jsval
  cat_items :: "menu_item list"

text \<open>\<^verbatim>\<open>a || b\<close>\<close>

definition or_else :: "jsval \<Rightarrow> jsval \<Rightarrow> jsval" where
  "or_else a b = (if truthy a then a else b)"

text \<open>
  Number.prototype.toString on an integer: the decimal digits, with a sign. (Exact for
  the integers below \<open>10^21\<close> that a number can hold.)
\<close>

fun digits :: "nat \<Rightarrow> string" where
  "digits n = (if n < 10 then [char_of (48 + n)] else digits (n div 10) @ [char_of (48 + n mod 10)])"

definition Number_toString :: "int \<Rightarrow> string" where
  "Number_toString n = (if n < 0 then CHR ''-'' # digits (nat (- n)) else digits (nat n))"

text \<open>\<^verbatim>\<open>v.toString()\<close>: reading the property of \<^verbatim>\<open>null\<close> or \<^verbatim>\<open>undefined\<close> throws.\<close>

fun toString :: "jsval \<Rightarrow> error + string" where
  "toString JUndefined =
     Inl (TypeError ''Cannot read properties of undefined (reading 'toString')'')"
| "toString JNull = Inl (TypeError ''Cannot read properties of null (reading 'toString')'')"
| "toString (JNum n) = Inr (Number_toString n)"
| "toString (JStr s) = Inr s"

text \<open>
  \<^verbatim>\<open>...(row.badge && { badge: decodeHtml(row.badge) })\<close>: a falsy badge is spread itself and
  contributes no key; a truthy one contributes the key \<^verbatim>\<open>badge\<close> with the decoded value.
\<close>

definition badge_spread :: "jsval \<Rightarrow> error + jsval option" where
  "badge_spread b = (if truthy b then and_then (decodeHtml b) (\<lambda>v. Inr (Some v)) else Inr None)"

text \<open>The object literal pushed for a row with an item (lines 371 to 379).\<close>

definition build_item :: "menu_row \<Rightarrow> error + menu_item" where
  "build_item row =
     and_then (toString (row_price row)) (\<lambda>price.
     and_then (badge_spread (row_badge row)) (\<lambda>badge.
       Inr \<lparr>item_image = or_else (row_image row) (JStr ''/img/menu/default.jpg''),
            item_title = row_title row,
            item_price = price,
            item_currency = or_else (row_currency row) (JStr ''$''),
            item_rating = or_else (row_rating row) (JNum 5),
            item_text = item_description row,
            item_badge = badge\<rparr>))"

text \<open>
  The accumulator \<^verbatim>\<open>acc\<close> is a plain object whose own properties are keyed by category
  id. It is kept as the list of its properties in creation order. \<^verbatim>\<open>Object.prototype\<close> has
  no property with an integer name, so \<^verbatim>\<open>acc[categoryId]\<close> is an own-property lookup, and
  a property that exists holds an object, which is truthy.
\<close>

type_synonym js_object = "(int \<times> menu_category) list"

definition push_item :: "js_object \<Rightarrow> int \<Rightarrow> menu_item \<Rightarrow> js_object" where
  "push_item acc k item =
     map (\<lambda>(k', c). if k' = k then (k', c\<lparr>cat_items := cat_items c @ [item]\<rparr>) else (k', c)) acc"

text \<open>The callback of \<^verbatim>\<open>rows.reduce\<close> (lines 358 to 383).\<close>

definition menu_step :: "js_object \<Rightarrow> menu_row \<Rightarrow> error + js_object" where
  "menu_step acc row =
     (let categoryId = category_id row;
          acc1 = (if map_of acc categoryId = None
                  then acc @ [(categoryId,
                         \<lparr>cat_name = category_name row,
                          cat_slug = category_slug row,
                          cat_description = category_description row,
                          cat_items = []\<rparr>)]
                  else acc)
      in if truthy (row_id row)
         then and_then (build_item row) (\<lambda>item. Inr (push_item acc1 categoryId item))
         else Inr acc1)"

text \<open>\<^verbatim>\<open>xs.reduce(f, init)\<close> for a callback that may throw.\<close>

fun reduce :: "('a \<Rightarrow> 'b \<Rightarrow> error + 'a) \<Rightarrow> 'b list \<Rightarrow> 'a \<Rightarrow> error + 'a" where
  "reduce f [] acc = Inr acc"
| "reduce f (x # xs) acc = and_then (f acc x) (reduce f xs)"

text \<open>
  The order of \<^verbatim>\<open>Object.values\<close>: the properties whose key is an array index (an integer
  from 0 to \<open>2^32 - 2\<close>) in ascending order of the key, then the other properties in
  creation order.
\<close>

definition is_array_index :: "int \<Rightarrow> bool" where
  "is_array_index k = (0 \<le> k \<and> k < 4294967295)"

definition Object_values :: "js_object \<Rightarrow> menu_category list" where
  "Object_values obj =
     map snd (sort_key fst (filter (\<lambda>p. is_array_index (fst p)) obj)) @
     map snd (filter (\<lambda>p. \<not> is_array_index (fst p)) obj)"

text \<open>The value of \<^verbatim>\<open>response.categories\<close> for the rows of the query.\<close>

definition menu_grouping :: "menu_row list \<Rightarrow> error + menu_category list" where
  "menu_grouping rows = and_then (reduce menu_step rows []) (\<lambda>categories. Inr (Object_values categories))"

section \<open>The FAQ route: grouping rows by category name\<close>

text \<open>
  A row of the FAQ query (\<^verbatim>\<open>id\<close>, \<^verbatim>\<open>title\<close>, \<^verbatim>\<open>text\<close>, \<^verbatim>\<open>category_id\<close>,
  \<^verbatim>\<open>category_name\<close>, here with the prefix \<open>faq_\<close>) and the objects of the response.
\<close>

record faq_row =
  faq_id :: jsval
  faq_title :: jsval
  faq_text :: jsval
  faq_category_id :: jsval
  faq_category_name :: jsval

record faq_item =
  fi_title :: jsval
  fi_text :: jsval

record faq_category =
  fc_name :: jsval
  fc_items :: "faq_item list"

text \<open>
  \<^verbatim>\<open>acc.find(p)\<close> returns the first element that satisfies \<^verbatim>\<open>p\<close>, and
  \<^verbatim>\<open>category.items.push(item)\<close> changes that very element of the array.
\<close>

fun update_found :: "('a \<Rightarrow> bool) \<Rightarrow> ('a \<Rightarrow> 'a) \<Rightarrow> 'a list \<Rightarrow> 'a list" where
  "update_found p f [] = []"
| "update_found p f (x # xs) = (if p x then f x # xs else x # update_found p f xs)"

text \<open>The callback of \<^verbatim>\<open>faqs.reduce\<close> (lines 311 to 326); nothing in it can throw.\<close>

definition faq_step :: "faq_category list \<Rightarrow> faq_row \<Rightarrow> faq_category list" where
  "faq_step acc faq =
     (let same = (\<lambda>cat. fc_name cat = faq_category_name faq);
          item = \<lparr>fi_title = faq_title faq, fi_text = faq_text faq\<rparr>
      in case find same acc of
           Some category \<Rightarrow> update_found same (\<lambda>c. c\<lparr>fc_items := fc_items c @ [item]\<rparr>) acc
         | None \<Rightarrow> acc @ [\<lparr>fc_name = faq_category_name faq, fc_items = [item]\<rparr>])"

definition faqs_grouping :: "faq_row list \<Rightarrow> faq_category list" where
  "faqs_grouping faqs = foldl faq_step [] faqs"

section \<open>The routes\<close>

text \<open>
  What the database does for one request: the outcome of \<^verbatim>\<open>pool.getConnection()\<close>, of
  \<^verbatim>\<open>connection.ping()\<close> and \<^verbatim>\<open>connection.release()\<close>, and of the fixed query of each
  data route. An outcome is the thrown error or the returned value. The rows of the routes
  that pass them through are of an arbitrary type \<open>'r\<close>.
\<close>

record 'r pool =
  getConnection :: "error + unit"
  ping :: "error + unit"
  release :: "error + unit"
  users_query :: "error + 'r list"
  images_query :: "error + 'r list"
  faqs_query :: "error + faq_row list"
  menu_query :: "error + menu_row list"
  reviews_query :: "error + 'r list"
  menu_categories_query :: "error + 'r list"

datatype 'r payload =
    Status string
  | StatusMessage string string
  | ErrorMessage string
  | Rows "'r list"
  | FaqCategories "faq_category list"
  | MenuCategories "menu_category list"

record 'r response =
  code :: nat
  payload :: "'r payload"

text \<open>
  \<^verbatim>\<open>try { ...; return v } catch (error) { reply.code(500).send(...) }\<close>: a returned value is
  sent with status 200, a thrown error goes to the catch block.
\<close>

definition try_catch :: "error + 'r payload \<Rightarrow> (error \<Rightarrow> 'r response) \<Rightarrow> 'r response" where
  "try_catch body catch = (case body of Inr v \<Rightarrow> \<lparr>code = 200, payload = v\<rparr> | Inl e \<Rightarrow> catch e)"

definition send_error :: "error \<Rightarrow> 'r response" where
  "send_error e = \<lparr>code = 500, payload = ErrorMessage (message e)\<rparr>"

definition health_handler :: "'r pool \<Rightarrow> 'r response" where
  "health_handler db = \<lparr>code = 200, payload = Status ''OK''\<rparr>"

definition db_health_handler :: "'r pool \<Rightarrow> 'r response" where
  "db_health_handler db =
     try_catch
       (and_then (getConnection db) (\<lambda>connection.
        and_then (ping db) (\<lambda>_.
        and_then (release db) (\<lambda>_.
          Inr (StatusMessage ''OK'' ''Database connection is successful'')))))
       (\<lambda>e. \<lparr>code = 500, payload = StatusMessage ''ERROR'' (message e)\<rparr>)"

definition users_handler :: "'r pool \<Rightarrow> 'r response" where
  "users_handler db = try_catch (and_then (users_query db) (\<lambda>rows. Inr (Rows rows))) send_error"

definition images_handler :: "'r pool \<Rightarrow> 'r response" where
  "images_handler db = try_catch (and_then (images_query db) (\<lambda>rows. Inr (Rows rows))) send_error"

definition faqs_handler :: "'r pool \<Rightarrow> 'r response" where
  "faqs_handler db =
     try_catch (and_then (faqs_query db) (\<lambda>faqs. Inr (FaqCategories (faqs_grouping faqs))))
       send_error"

definition menu_handler :: "'r pool \<Rightarrow> 'r response" where
  "menu_handler db =
     try_catch
       (and_then (menu_query db) (\<lambda>rows.
        and_then (menu_grouping rows) (\<lambda>categories. Inr (MenuCategories categories))))
       send_error"

definition reviews_handler :: "'r pool \<Rightarrow> 'r response" where
  "reviews_handler db = try_catch (and_then (reviews_query db) (\<lambda>rows. Inr (Rows rows))) send_error"

definition menu_categories_handler :: "'r pool \<Rightarrow> 'r response" where
  "menu_categories_handler db =
     try_catch (and_then (menu_categories_query db) (\<lambda>rows. Inr (Rows rows))) send_error"

datatype route = Health | DbHealth | Users | Images | Faqs | Menu | Reviews | MenuCategoriesRoute

fun handle :: "route \<Rightarrow> 'r pool \<Rightarrow> 'r response" where
  "handle Health = health_handler"
| "handle DbHealth = db_health_handler"
| "handle Users = users_handler"
| "handle Images = images_handler"
| "handle Faqs = faqs_handler"
| "handle Menu = menu_handler"
| "handle Reviews = reviews_handler"
| "handle MenuCategoriesRoute = menu_categories_handler"

section \<open>What the specification says, as definitions\<close>

text \<open>The distinct elements of a list in the order of their first occurrence.\<close>

fun first_occurrences :: "'a list \<Rightarrow> 'a list" where
  "first_occurrences [] = []"
| "first_occurrences (x # xs) = x # filter (\<lambda>y. y \<noteq> x) (first_occurrences xs)"

text \<open>A value that is neither \<^verbatim>\<open>null\<close> nor \<^verbatim>\<open>undefined\<close>, and a value that is a string.\<close>

fun non_null :: "jsval \<Rightarrow> bool" where
  "non_null JUndefined = False"
| "non_null JNull = False"
| "non_null (JNum n) = True"
| "non_null (JStr s) = True"

fun is_string :: "jsval \<Rightarrow> bool" where
  "is_string (JStr s) = True"
| "is_string JUndefined = False"
| "is_string JNull = False"
| "is_string (JNum n) = False"

text \<open>
  The order in which \<^verbatim>\<open>Object.values\<close> lists the keys \<open>ks\<close>, given in creation order.
\<close>

definition values_order :: "int list \<Rightarrow> int list" where
  "values_order ks = sort (filter is_array_index ks) @ filter (\<lambda>k. \<not> is_array_index k) ks"

text \<open>
  The category \<open>c\<close> is the group of the rows with key \<open>k\<close>: its name, slug and
  description are those of the first such row, and its items are the items built from the
  rows that have an item, in row order.
\<close>

definition groups_rows :: "menu_row list \<Rightarrow> int \<Rightarrow> menu_category \<Rightarrow> bool" where
  "groups_rows rows k c =
     (map_option (\<lambda>r. (category_name r, category_slug r, category_description r))
        (find (\<lambda>r. category_id r = k) rows) = Some (cat_name c, cat_slug c, cat_description c) \<and>
      map Inr (cat_items c) =
        map build_item (filter (\<lambda>r. category_id r = k \<and> truthy (row_id r)) rows))"

text \<open>The categories are the groups of the keys, in the order of their first occurrence.\<close>

definition in_first_occurrence_order :: "menu_row list \<Rightarrow> menu_category list \<Rightarrow> bool" where
  "in_first_occurrence_order rows cats =
     list_all2 (\<lambda>c k. groups_rows rows k c) cats (first_occurrences (map category_id rows))"

text \<open>
  Every category of the output has as many items as the input has rows of its key whose
  item identifier satisfies \<open>has_item\<close>.
\<close>

definition counts_items :: "(jsval \<Rightarrow> bool) \<Rightarrow> menu_row list \<Rightarrow> menu_category list \<Rightarrow> bool" where
  "counts_items has_item rows cats =
     list_all2
       (\<lambda>c k. length (cat_items c) =
              length (filter (\<lambda>r. category_id r = k \<and> has_item (row_id r)) rows))
       cats (values_order (first_occurrences (map category_id rows)))"

text \<open>
  The three defaulted fields of an item: a field of the row that satisfies \<open>keeps\<close> is
  passed through, any other is replaced by the fixed default.
\<close>

definition defaulted :: "(jsval \<Rightarrow> bool) \<Rightarrow> menu_row \<Rightarrow> menu_item \<Rightarrow> bool" where
  "defaulted keeps row item =
     (item_image item = (if keeps (row_image row) then row_image row else JStr ''/img/menu/default.jpg'') \<and>
      item_currency item = (if keeps (row_currency row) then row_currency row else JStr ''$'') \<and>
      item_rating item = (if keeps (row_rating row) then row_rating row else JNum 5))"

text \<open>The FAQ category of the name \<open>n\<close>: the title and text of its rows, in row order.\<close>

definition expected_faq_category :: "faq_row list \<Rightarrow> jsval \<Rightarrow> faq_category" where
  "expected_faq_category faqs n =
     \<lparr>fc_name = n,
      fc_items = map (\<lambda>f. \<lparr>fi_title = faq_title f, fi_text = faq_text f\<rparr>)
                   (filter (\<lambda>f. faq_category_name f = n) faqs)\<rparr>"

section \<open>Auxiliary definitions of the proofs\<close>

text \<open>The items of the rows whose object literal is built without a throw.\<close>

definition built_items :: "menu_row list \<Rightarrow> menu_item list" where
  "built_items rs = concat (map (\<lambda>r. case build_item r of Inr i \<Rightarrow> [i] | Inl e \<Rightarrow> []) rs)"

text \<open>The property of key \<open>k\<close> in the accumulator once \<open>rows\<close> have been reduced.\<close>

definition expected_category :: "menu_row list \<Rightarrow> int \<Rightarrow> menu_category" where
  "expected_category rows k =
     \<lparr>cat_name = category_name (hd (filter (\<lambda>r. category_id r = k) rows)),
      cat_slug = category_slug (hd (filter (\<lambda>r. category_id r = k) rows)),
      cat_description = category_description (hd (filter (\<lambda>r. category_id r = k) rows)),
      cat_items = built_items (filter (\<lambda>r. category_id r = k \<and> truthy (row_id r)) rows)\<rparr>"

text \<open>
  No match of a pattern of the chain reaches across either end of the text \<open>m\<close>, at any
  stage of the chain.
\<close>

fun passes_ok :: "(string \<times> string) list \<Rightarrow> string \<Rightarrow> bool" where
  "passes_ok [] m = True"
| "passes_ok ((pat, rep) # ps) m =
     (pat \<noteq> [] \<and> m \<noteq> [] \<and> hd m \<notin> set (tl pat) \<and> last m \<notin> set (butlast pat) \<and>
      passes_ok ps (replace_all pat rep m))"

section \<open>Example inputs\<close>

definition example_row :: "int \<Rightarrow> string \<Rightarrow> jsval \<Rightarrow> jsval \<Rightarrow> menu_row" where
  "example_row cid cname item price =
     \<lparr>category_id = cid, category_name = JStr cname, category_slug = JNull,
      category_description = JNull, row_id = item, row_title = JStr ''Pizza'',
      row_image = JNull, row_price = price, item_description = JNull, row_badge = JNull,
      row_rating = JNull, row_currency = JNull\<rparr>"

definition example_item :: "string \<Rightarrow> menu_item" where
  "example_item price =
     \<lparr>item_image = JStr ''/img/menu/default.jpg'', item_title = JStr ''Pizza'',
      item_price = price, item_currency = JStr ''$'', item_rating = JNum 5,
      item_text = JNull, item_badge = None\<rparr>"

definition example_category :: "string \<Rightarrow> menu_item list \<Rightarrow> menu_category" where
  "example_category cname items =
     \<lparr>cat_name = JStr cname, cat_slug = JNull, cat_description = JNull, cat_items = items\<rparr>"

definition example_faq :: "string \<Rightarrow> string \<Rightarrow> faq_row" where
  "example_faq cname title =
     \<lparr>faq_id = JNull, faq_title = JStr title, faq_text = JNull, faq_category_id = JNull,
      faq_category_name = JStr cname\<rparr>"

definition failing_pool :: "error \<Rightarrow> unit pool" where
  "failing_pool e =
     \<lparr>getConnection = Inl e, ping = Inl e, release = Inl e, users_query = Inl e,
      images_query = Inl e, faqs_query = Inl e, menu_query = Inl e, reviews_query = Inl e,
      menu_categories_query = Inl e\<rparr>"

definition answering_pool :: "faq_row list \<Rightarrow> menu_row list \<Rightarrow> unit pool" where
  "answering_pool faqs rows =
     \<lparr>getConnection = Inr (), ping = Inr (), release = Inr (), users_query = Inr [()],
      images_query = Inr [], faqs_query = Inr faqs, menu_query = Inr rows,
      reviews_query = Inr [], menu_categories_query = Inr []\<rparr>"

section \<open>Lemmas: sequencing and reduce\<close>

lemma and_then_Inr_iff: "and_then m f = Inr y \<longleftrightarrow> (\<exists>x. m = Inr x \<and> f x = Inr y)"
  by (cases m) (auto simp: and_then_def)

lemma and_then_Inl_iff:
  "and_then m f = Inl e \<longleftrightarrow> m = Inl e \<or> (\<exists>x. m = Inr x \<and> f x = Inl e)"
  by (cases m) (auto simp: and_then_def)

lemma reduce_snoc: "reduce f (xs @ [x]) acc = and_then (reduce f xs acc) (\<lambda>a. f a x)"
  by (induction xs arbitrary: acc) (auto simp: and_then_def split: sum.splits)

section \<open>Lemmas: first occurrences and the order of Object.values\<close>

lemma set_first_occurrences [simp]: "set (first_occurrences xs) = set xs"
  by (induction xs) auto

lemma distinct_first_occurrences [simp]: "distinct (first_occurrences xs)"
  by (induction xs) auto

lemma first_occurrences_snoc:
  "first_occurrences (xs @ [x]) =
     (if x \<in> set xs then first_occurrences xs else first_occurrences xs @ [x])"
  by (induction xs) auto

lemma sorted_first_occurrences: "sorted xs \<Longrightarrow> sorted (first_occurrences xs)"
  by (induction xs) (auto simp: sorted_wrt_filter)

lemma insort_key_keyed:
  "insort_key fst (k, f k) (map (\<lambda>k. (k, f k)) ks) = map (\<lambda>k. (k, f k)) (insort k ks)"
  by (induction ks) auto

lemma sort_key_keyed:
  "sort_key fst (map (\<lambda>k. (k, f k)) ks) = map (\<lambda>k. (k, f k)) (sort ks)"
  by (induction ks) (auto simp: insort_key_keyed)

lemma Object_values_keyed:
  "Object_values (map (\<lambda>k. (k, f k)) ks) = map f (values_order ks)"
proof -
  have idx: "filter (\<lambda>p. is_array_index (fst p)) (map (\<lambda>k. (k, f k)) ks) =
             map (\<lambda>k. (k, f k)) (filter is_array_index ks)"
    by (induction ks) auto
  have rest: "filter (\<lambda>p. \<not> is_array_index (fst p)) (map (\<lambda>k. (k, f k)) ks) =
              map (\<lambda>k. (k, f k)) (filter (\<lambda>k. \<not> is_array_index k) ks)"
    by (induction ks) auto
  show ?thesis
    unfolding Object_values_def values_order_def idx rest sort_key_keyed
    by (simp add: comp_def)
qed

lemma values_order_sorted:
  assumes "sorted ks" and "\<forall>k\<in>set ks. is_array_index k"
  shows "values_order ks = ks"
proof -
  from assms(2) have "filter is_array_index ks = ks" and "filter (\<lambda>k. \<not> is_array_index k) ks = []"
    by (auto simp: filter_empty_conv)
  with assms(1) show ?thesis
    by (simp add: values_order_def sort_key_id_if_sorted)
qed

lemma find_hd_filter:
  "find P xs = (if filter P xs = [] then None else Some (hd (filter P xs)))"
  by (induction xs) auto

section \<open>Lemmas: the accumulator of the menu reduction\<close>

lemma map_of_keyed: "map_of (map (\<lambda>k. (k, f k)) ks) k = (if k \<in> set ks then Some (f k) else None)"
  by (induction ks) auto

lemma push_item_keyed:
  "push_item (map (\<lambda>k. (k, f k)) ks) k0 item =
   map (\<lambda>k. (k, if k = k0 then (f k)\<lparr>cat_items := cat_items (f k) @ [item]\<rparr> else f k)) ks"
  by (simp add: push_item_def)

lemma built_items_append: "built_items (xs @ ys) = built_items xs @ built_items ys"
  by (simp add: built_items_def)

lemma built_items_Nil [simp]: "built_items [] = []"
  by (simp add: built_items_def)

lemma built_items_single: "build_item r = Inr i \<Longrightarrow> built_items [r] = [i]"
  by (simp add: built_items_def)

lemma map_Inr_built_items:
  "\<forall>r\<in>set rs. \<exists>i. build_item r = Inr i \<Longrightarrow> map Inr (built_items rs) = map build_item rs"
  by (induction rs) (auto simp: built_items_def)

lemma expected_category_other:
  "category_id r \<noteq> k \<Longrightarrow> expected_category (rows @ [r]) k = expected_category rows k"
  by (simp add: expected_category_def)

lemma expected_category_new:
  "category_id r \<notin> category_id ` set rows \<Longrightarrow>
   expected_category (rows @ [r]) (category_id r) =
     \<lparr>cat_name = category_name r, cat_slug = category_slug r,
      cat_description = category_description r,
      cat_items = (if truthy (row_id r) then built_items [r] else [])\<rparr>"
proof -
  assume "category_id r \<notin> category_id ` set rows"
  then have "filter (\<lambda>x. category_id x = category_id r) rows = []"
    and "filter (\<lambda>x. category_id x = category_id r \<and> truthy (row_id x)) rows = []"
    by (auto simp: filter_empty_conv image_iff)
  then show ?thesis
    by (simp add: expected_category_def)
qed

lemma expected_category_old:
  "category_id r \<in> category_id ` set rows \<Longrightarrow>
   expected_category (rows @ [r]) (category_id r) =
     (expected_category rows (category_id r))
       \<lparr>cat_items := cat_items (expected_category rows (category_id r)) @
                    (if truthy (row_id r) then built_items [r] else [])\<rparr>"
proof -
  assume "category_id r \<in> category_id ` set rows"
  then have "filter (\<lambda>x. category_id x = category_id r) rows \<noteq> []"
    by (auto simp: filter_empty_conv image_iff)
  then show ?thesis
    by (simp add: expected_category_def built_items_append)
qed

lemma menu_step_keyed:
  assumes "menu_step (map (\<lambda>k. (k, expected_category rows k))
             (first_occurrences (map category_id rows))) r = Inr acc'"
  shows "acc' = map (\<lambda>k. (k, expected_category (rows @ [r]) k))
                  (first_occurrences (map category_id (rows @ [r])))"
proof -
  let ?E = "expected_category rows" and ?E' = "expected_category (rows @ [r])"
  let ?ks = "first_occurrences (map category_id rows)"
  let ?k0 = "category_id r"
  let ?new = "\<lparr>cat_name = category_name r, cat_slug = category_slug r,
                cat_description = category_description r, cat_items = []\<rparr>"
  have ok: "truthy (row_id r) \<Longrightarrow> \<exists>i. build_item r = Inr i"
    using assms by (auto simp: menu_step_def Let_def and_then_Inr_iff)
  show ?thesis
  proof (cases "?k0 \<in> category_id ` set rows")
    case True
    have pt: "\<And>k. (if k = ?k0 then (?E k)\<lparr>cat_items := cat_items (?E k) @
                 (if truthy (row_id r) then built_items [r] else [])\<rparr> else ?E k) = ?E' k"
      using True by (simp add: expected_category_other expected_category_old)
    show ?thesis
    proof (cases "truthy (row_id r)")
      case t: True
      with ok obtain i where i: "build_item r = Inr i" by blast
      have "acc' = push_item (map (\<lambda>k. (k, ?E k)) ?ks) ?k0 i"
        using assms True t i by (auto simp: menu_step_def Let_def map_of_keyed and_then_def)
      also have "\<dots> = map (\<lambda>k. (k, ?E' k)) ?ks"
        using pt by (simp only: push_item_keyed t i built_items_single if_True)
      finally show ?thesis using True by (simp add: first_occurrences_snoc)
    next
      case f: False
      have "acc' = map (\<lambda>k. (k, ?E k)) ?ks"
        using assms True f by (auto simp: menu_step_def Let_def map_of_keyed)
      also have "\<dots> = map (\<lambda>k. (k, ?E' k)) ?ks"
      proof -
        have "\<And>k. ?E' k = ?E k"
          using pt [symmetric] f by simp
        then show ?thesis by simp
      qed
      finally show ?thesis using True by (simp add: first_occurrences_snoc)
    qed
  next
    case False
    have fresh: "?k0 \<notin> set ?ks" using False by simp
    have other: "map (\<lambda>k. (k, ?E k)) ?ks = map (\<lambda>k. (k, ?E' k)) ?ks"
    proof (rule map_cong [OF refl])
      fix k assume "k \<in> set ?ks"
      with fresh have "category_id r \<noteq> k" by blast
      then show "(k, ?E k) = (k, ?E' k)" by (simp add: expected_category_other)
    qed
    have new: "?E' ?k0 = ?new\<lparr>cat_items := (if truthy (row_id r) then built_items [r] else [])\<rparr>"
      using False by (simp add: expected_category_new)
    show ?thesis
    proof (cases "truthy (row_id r)")
      case t: True
      with ok obtain i where i: "build_item r = Inr i" by blast
      have "acc' = push_item (map (\<lambda>k. (k, ?E k)) ?ks @ [(?k0, ?new)]) ?k0 i"
        using assms False t i by (auto simp: menu_step_def Let_def map_of_keyed and_then_def)
      also have "\<dots> = map (\<lambda>k. (k, ?E k)) ?ks @ [(?k0, ?new\<lparr>cat_items := [i]\<rparr>)]"
      proof -
        from fresh have "\<forall>k\<in>set ?ks. k \<noteq> ?k0" by blast
        then have "push_item (map (\<lambda>k. (k, ?E k)) ?ks) ?k0 i = map (\<lambda>k. (k, ?E k)) ?ks"
          by (simp add: push_item_keyed cong: map_cong)
        then show ?thesis by (simp add: push_item_def)
      qed
      also have "\<dots> = map (\<lambda>k. (k, ?E' k)) (?ks @ [?k0])"
        using other new t i by (simp add: built_items_single)
      finally show ?thesis using False by (simp add: first_occurrences_snoc)
    next
      case f: False
      have "acc' = map (\<lambda>k. (k, ?E k)) ?ks @ [(?k0, ?new)]"
        using assms False f by (auto simp: menu_step_def Let_def map_of_keyed)
      also have "\<dots> = map (\<lambda>k. (k, ?E' k)) (?ks @ [?k0])"
        using other new f by simp
      finally show ?thesis using False by (simp add: first_occurrences_snoc)
    qed
  qed
qed

lemma reduce_menu_step_keyed:
  "reduce menu_step rows [] = Inr acc \<Longrightarrow>
   acc = map (\<lambda>k. (k, expected_category rows k)) (first_occurrences (map category_id rows))"
proof (induction rows arbitrary: acc rule: rev_induct)
  case Nil
  then show ?case by simp
next
  case (snoc r rows)
  from snoc.prems obtain a where a: "reduce menu_step rows [] = Inr a"
    and s: "menu_step a r = Inr acc"
    by (auto simp: reduce_snoc and_then_Inr_iff)
  from snoc.IH [OF a] s show ?case
    using menu_step_keyed by blast
qed

lemma menu_grouping_keyed:
  "menu_grouping rows = Inr cats \<Longrightarrow>
   cats = map (expected_category rows) (values_order (first_occurrences (map category_id rows)))"
  by (auto simp: menu_grouping_def and_then_Inr_iff Object_values_keyed
      dest!: reduce_menu_step_keyed)

section \<open>Lemmas: when the menu reduction throws\<close>

lemma build_item_Inr_iff:
  "(\<exists>i. build_item r = Inr i) \<longleftrightarrow>
   non_null (row_price r) \<and> (truthy (row_badge r) \<longrightarrow> is_string (row_badge r))"
  by (cases "row_price r"; cases "row_badge r")
     (auto simp: build_item_def badge_spread_def and_then_def)

lemma build_item_TypeError: "build_item r = Inl e \<Longrightarrow> \<exists>m. e = TypeError m"
  by (cases "row_price r"; cases "row_badge r")
     (auto simp: build_item_def badge_spread_def and_then_def split: if_splits)

lemma menu_step_Inr_iff:
  "(\<exists>acc'. menu_step acc r = Inr acc') \<longleftrightarrow> (truthy (row_id r) \<longrightarrow> (\<exists>i. build_item r = Inr i))"
  by (auto simp: menu_step_def Let_def and_then_Inr_iff)

lemma menu_step_TypeError: "menu_step acc r = Inl e \<Longrightarrow> \<exists>m. e = TypeError m"
  by (auto simp: menu_step_def Let_def and_then_Inl_iff split: if_splits
      dest: build_item_TypeError)

lemma reduce_menu_step_Inr_iff:
  "(\<exists>acc'. reduce menu_step rows acc = Inr acc') \<longleftrightarrow>
   (\<forall>r\<in>set rows. truthy (row_id r) \<longrightarrow> (\<exists>i. build_item r = Inr i))"
proof (induction rows arbitrary: acc)
  case Nil
  then show ?case by simp
next
  case (Cons r rows)
  show ?case
  proof (cases "menu_step acc r")
    case (Inl e)
    with menu_step_Inr_iff [of acc r] show ?thesis
      by (auto simp: and_then_def)
  next
    case (Inr a)
    with menu_step_Inr_iff [of acc r] Cons.IH [of a] show ?thesis
      by (auto simp: and_then_def)
  qed
qed

lemma reduce_menu_step_TypeError:
  "reduce menu_step rows acc = Inl e \<Longrightarrow> \<exists>m. e = TypeError m"
proof (induction rows arbitrary: acc)
  case Nil
  then show ?case by simp
next
  case (Cons r rows)
  then show ?case
    by (auto simp: and_then_Inl_iff dest: menu_step_TypeError)
qed

lemma menu_grouping_Inr_iff:
  "(\<exists>cats. menu_grouping rows = Inr cats) \<longleftrightarrow>
   (\<forall>r\<in>set rows. truthy (row_id r) \<longrightarrow> (\<exists>i. build_item r = Inr i))"
  using reduce_menu_step_Inr_iff [of rows "[]"]
  by (auto simp: menu_grouping_def and_then_Inr_iff)

lemma menu_grouping_groups:
  assumes "menu_grouping rows = Inr cats"
  shows "list_all2 (\<lambda>c k. groups_rows rows k c) cats
           (values_order (first_occurrences (map category_id rows)))"
proof -
  let ?ks = "values_order (first_occurrences (map category_id rows))"
  have built: "\<forall>r\<in>set rows. truthy (row_id r) \<longrightarrow> (\<exists>i. build_item r = Inr i)"
    using assms menu_grouping_Inr_iff by blast
  have "groups_rows rows k (expected_category rows k)" if "k \<in> set ?ks" for k
  proof -
    from that have "k \<in> category_id ` set rows"
      by (auto simp: values_order_def)
    then have ne: "filter (\<lambda>r. category_id r = k) rows \<noteq> []"
      by (auto simp: filter_empty_conv)
    have "map Inr (built_items (filter (\<lambda>r. category_id r = k \<and> truthy (row_id r)) rows)) =
          map build_item (filter (\<lambda>r. category_id r = k \<and> truthy (row_id r)) rows)"
      using built by (intro map_Inr_built_items) auto
    with ne show ?thesis
      by (simp add: groups_rows_def expected_category_def find_hd_filter)
  qed
  then have "list_all2 (\<lambda>c k. groups_rows rows k c) (map (expected_category rows) ?ks) ?ks"
    by (simp add: list_all2_map1 list_all2_same)
  with menu_grouping_keyed [OF assms] show ?thesis by simp
qed

section \<open>Lemmas: replacing in a string\<close>

lemma replace_all_absent:
  "pat \<noteq> [] \<Longrightarrow> \<not> sublist pat s \<Longrightarrow> replace_all pat rep s = s"
proof (induction s)
  case Nil
  then show ?case by simp
next
  case (Cons c cs)
  from Cons.prems have "\<not> prefix pat (c # cs)" and "\<not> sublist pat cs"
    by (auto simp: sublist_Cons_right)
  with Cons show ?case by simp
qed

lemma replace_all_split_before:
  assumes "pat \<noteq> []" and "c \<notin> set (tl pat)"
  shows "replace_all pat rep (a @ c # b) = replace_all pat rep a @ replace_all pat rep (c # b)"
  using assms
proof (induction pat rep a rule: replace_all.induct)
  case (1 pat rep)
  then show ?case by simp
next
  case (2 pat rep x xs)
  show ?case
  proof (cases "prefix pat (x # xs)")
    case True
    then have len: "length pat - 1 \<le> length xs"
      using prefix_length_le by fastforce
    from True have "prefix pat (x # xs @ c # b)"
      by (metis append_Cons prefix_prefix)
    with True 2 len show ?thesis by simp
  next
    case False
    have "\<not> prefix pat (x # xs @ c # b)"
    proof
      assume "prefix pat (x # xs @ c # b)"
      then have "prefix pat ((x # xs) @ c # b)" by simp
      with False obtain us where us: "pat = (x # xs) @ us" "prefix us (c # b)"
        unfolding prefix_append by blast
      with False have "us \<noteq> []" by auto
      with us have "c \<in> set (tl pat)" by (cases us) auto
      with 2 show False by simp
    qed
    with False 2 show ?thesis by simp
  qed
qed

lemma replace_all_split_after:
  assumes "pat \<noteq> []" and "s \<noteq> [] \<longrightarrow> last s \<notin> set (butlast pat)"
  shows "replace_all pat rep (s @ b) = replace_all pat rep s @ replace_all pat rep b"
  using assms
proof (induction pat rep s rule: replace_all.induct)
  case (1 pat rep)
  then show ?case by simp
next
  case (2 pat rep x xs)
  show ?case
  proof (cases "prefix pat (x # xs)")
    case True
    then have len: "length pat - 1 \<le> length xs"
      using prefix_length_le by fastforce
    from True have pre: "prefix pat (x # xs @ b)"
      by (metis append_Cons prefix_prefix)
    have "drop (length pat - 1) xs \<noteq> [] \<longrightarrow>
          last (drop (length pat - 1) xs) \<notin> set (butlast pat)"
    proof
      assume "drop (length pat - 1) xs \<noteq> []"
      then have "length pat - 1 < length xs" by simp
      then have "xs \<noteq> []" and "last (drop (length pat - 1) xs) = last xs"
        by (auto simp: last_drop)
      with 2(5) show "last (drop (length pat - 1) xs) \<notin> set (butlast pat)" by simp
    qed
    with 2(2) [OF 2(4) True 2(4)] have
      "replace_all pat rep (drop (length pat - 1) xs @ b) =
       replace_all pat rep (drop (length pat - 1) xs) @ replace_all pat rep b" by blast
    with True pre 2(4) len show ?thesis by simp
  next
    case False
    have np: "\<not> prefix pat (x # xs @ b)"
    proof
      assume "prefix pat (x # xs @ b)"
      then have "prefix pat ((x # xs) @ b)" by simp
      with False obtain us where us: "pat = (x # xs) @ us" "prefix us b"
        unfolding prefix_append by blast
      with False have "us \<noteq> []" by auto
      with us have "last (x # xs) \<in> set (butlast pat)"
        by (simp add: butlast_append)
      with 2(5) show False by simp
    qed
    have "xs \<noteq> [] \<longrightarrow> last xs \<notin> set (butlast pat)"
      using 2(5) by auto
    with 2(3) [OF 2(4) False 2(4)] have
      "replace_all pat rep (xs @ b) = replace_all pat rep xs @ replace_all pat rep b" by blast
    with False np 2(4) show ?thesis by simp
  qed
qed

lemma replace_all_around:
  assumes "pat \<noteq> []" and "m \<noteq> []"
    and "hd m \<notin> set (tl pat)" and "last m \<notin> set (butlast pat)"
  shows "replace_all pat rep (x @ m @ y) =
         replace_all pat rep x @ replace_all pat rep m @ replace_all pat rep y"
proof -
  from assms(2) obtain c m' where m: "m = c # m'" by (cases m) auto
  have "replace_all pat rep (x @ m @ y) = replace_all pat rep x @ replace_all pat rep (m @ y)"
    using replace_all_split_before [OF assms(1), of c rep x "m' @ y"] assms(3) m by simp
  also have "replace_all pat rep (m @ y) = replace_all pat rep m @ replace_all pat rep y"
    using replace_all_split_after [OF assms(1), of m] assms(2,4) by simp
  finally show ?thesis .
qed

lemma replace_chain_around:
  "passes_ok ps m \<Longrightarrow>
   replace_chain ps (x @ m @ y) = replace_chain ps x @ replace_chain ps m @ replace_chain ps y"
proof (induction ps arbitrary: x m y)
  case Nil
  then show ?case by (simp add: replace_chain_def)
next
  case (Cons p ps)
  obtain pat rep where p: "p = (pat, rep)" by (cases p)
  from Cons.prems p have ok: "pat \<noteq> []" "m \<noteq> []" "hd m \<notin> set (tl pat)"
    "last m \<notin> set (butlast pat)" "passes_ok ps (replace_all pat rep m)"
    by simp_all
  have step: "\<And>z. replace_chain (p # ps) z = replace_chain ps (replace_all pat rep z)"
    by (simp add: replace_chain_def p)
  have "replace_chain (p # ps) (x @ m @ y) = replace_chain ps (replace_all pat rep (x @ m @ y))"
    by (rule step)
  also have "\<dots> = replace_chain ps
                     (replace_all pat rep x @ replace_all pat rep m @ replace_all pat rep y)"
    by (simp only: replace_all_around [OF ok(1-4)])
  also have "\<dots> = replace_chain ps (replace_all pat rep x) @
                   replace_chain ps (replace_all pat rep m) @
                   replace_chain ps (replace_all pat rep y)"
    by (rule Cons.IH [OF ok(5)])
  finally show ?case by (simp only: step)
qed

lemma decode_string_around:
  "passes_ok entities m \<Longrightarrow>
   decode_string (x @ m @ y) = decode_string x @ decode_string m @ decode_string y"
  by (simp add: decode_string_def replace_chain_around)

lemmas decode_eval = decode_string_def replace_chain_def entities_def backslash_def

lemma decode_string_lt:
  "decode_string (a @ ''&lt;'' @ b) = decode_string a @ ''<'' @ decode_string b"
proof -
  have "passes_ok entities ''&lt;''" by (simp add: entities_def backslash_def)
  moreover have "decode_string ''&lt;'' = ''<''" by (simp add: decode_eval)
  ultimately show ?thesis using decode_string_around [of "''&lt;''" a b] by simp
qed

lemma decode_string_gt:
  "decode_string (a @ ''&gt;'' @ b) = decode_string a @ ''>'' @ decode_string b"
proof -
  have "passes_ok entities ''&gt;''" by (simp add: entities_def backslash_def)
  moreover have "decode_string ''&gt;'' = ''>''" by (simp add: decode_eval)
  ultimately show ?thesis using decode_string_around [of "''&gt;''" a b] by simp
qed

lemma decode_string_apos:
  "decode_string (a @ ''&#039;'' @ b) = decode_string a @ [CHR 0x27] @ decode_string b"
proof -
  have "passes_ok entities ''&#039;''" by (simp add: entities_def backslash_def)
  moreover have "decode_string ''&#039;'' = [CHR 0x27]" by (simp add: decode_eval)
  ultimately show ?thesis using decode_string_around [of "''&#039;''" a b] by simp
qed

lemma decode_string_quot:
  "decode_string (a @ ''&quot;'' @ b) = decode_string a @ [CHR 0x22] @ decode_string b"
proof -
  have "passes_ok entities ''&quot;''" by (simp add: entities_def backslash_def)
  moreover have "decode_string ''&quot;'' = [CHR 0x22]" by (simp add: decode_eval)
  ultimately show ?thesis using decode_string_around [of "''&quot;''" a b] by simp
qed

lemma decode_string_amp:
  "decode_string (a @ ''&amp;'' @ b) = decode_string a @ ''&'' @ decode_string b"
proof -
  have "passes_ok entities ''&amp;''" by (simp add: entities_def backslash_def)
  moreover have "decode_string ''&amp;'' = ''&''" by (simp add: decode_eval)
  ultimately show ?thesis using decode_string_around [of "''&amp;''" a b] by simp
qed

lemma decode_string_u003C:
  "decode_string (a @ (backslash # ''u003C'') @ b) = decode_string a @ ''<'' @ decode_string b"
proof -
  have "passes_ok entities (backslash # ''u003C'')" by (simp add: entities_def backslash_def)
  moreover have "decode_string (backslash # ''u003C'') = ''<''" by (simp add: decode_eval)
  ultimately show ?thesis using decode_string_around [of "backslash # ''u003C''" a b] by simp
qed

lemma decode_string_u003E:
  "decode_string (a @ (backslash # ''u003E'') @ b) = decode_string a @ ''>'' @ decode_string b"
proof -
  have "passes_ok entities (backslash # ''u003E'')" by (simp add: entities_def backslash_def)
  moreover have "decode_string (backslash # ''u003E'') = ''>''" by (simp add: decode_eval)
  ultimately show ?thesis using decode_string_around [of "backslash # ''u003E''" a b] by simp
qed

lemma decode_string_absent:
  "\<forall>p\<in>set (map fst entities). \<not> sublist p s \<Longrightarrow> decode_string s = s"
  by (simp add: decode_eval replace_all_absent)

section \<open>Lemmas: the accumulator of the FAQ reduction\<close>

lemma find_keyed:
  "(\<And>k. p (f k) \<longleftrightarrow> k = k0) \<Longrightarrow>
   find p (map f ks) = (if k0 \<in> set ks then Some (f k0) else None)"
  by (induction ks) auto

lemma update_found_keyed:
  "distinct ks \<Longrightarrow> (\<And>k. p (f k) \<longleftrightarrow> k = k0) \<Longrightarrow>
   update_found p g (map f ks) = map (\<lambda>k. if k = k0 then g (f k) else f k) ks"
proof (induction ks)
  case Nil
  then show ?case by simp
next
  case (Cons k ks)
  show ?case
  proof (cases "k = k0")
    case True
    with Cons.prems have "\<forall>j\<in>set ks. j \<noteq> k0" by auto
    then have "map (\<lambda>k. if k = k0 then g (f k) else f k) ks = map f ks"
      by (simp cong: map_cong)
    with True Cons.prems(2) show ?thesis by simp
  next
    case False
    with Cons show ?thesis by simp
  qed
qed

lemma faq_step_keyed:
  "faq_step (map (expected_faq_category faqs) (first_occurrences (map faq_category_name faqs))) faq =
   map (expected_faq_category (faqs @ [faq]))
     (first_occurrences (map faq_category_name (faqs @ [faq])))"
proof -
  let ?E = "expected_faq_category faqs" and ?E' = "expected_faq_category (faqs @ [faq])"
  let ?ks = "first_occurrences (map faq_category_name faqs)"
  let ?n = "faq_category_name faq"
  let ?item = "\<lparr>fi_title = faq_title faq, fi_text = faq_text faq\<rparr>"
  let ?same = "\<lambda>cat. fc_name cat = ?n"
  have same: "\<And>k. ?same (?E k) \<longleftrightarrow> k = ?n"
    by (simp add: expected_faq_category_def)
  have pt: "\<And>k. (if k = ?n then (?E k)\<lparr>fc_items := fc_items (?E k) @ [?item]\<rparr> else ?E k) = ?E' k"
    by (simp add: expected_faq_category_def)
  show ?thesis
  proof (cases "?n \<in> set (map faq_category_name faqs)")
    case True
    then have mem: "?n \<in> set ?ks" by simp
    have "faq_step (map ?E ?ks) faq =
          update_found ?same (\<lambda>c. c\<lparr>fc_items := fc_items c @ [?item]\<rparr>) (map ?E ?ks)"
      using mem by (simp add: faq_step_def Let_def find_keyed [of ?same ?E ?n, OF same])
    also have "\<dots> = map ?E' ?ks"
      using pt by (simp only: update_found_keyed [of ?ks ?same ?E ?n, OF distinct_first_occurrences same])
    finally show ?thesis using True by (simp add: first_occurrences_snoc)
  next
    case False
    then have fresh: "?n \<notin> set ?ks" by simp
    have other: "map ?E ?ks = map ?E' ?ks"
    proof (rule map_cong [OF refl])
      fix k assume "k \<in> set ?ks"
      with fresh have "k \<noteq> ?n" by blast
      then show "?E k = ?E' k" using pt [of k] by simp
    qed
    have step: "faq_step (map ?E ?ks) faq = map ?E ?ks @ [\<lparr>fc_name = ?n, fc_items = [?item]\<rparr>]"
      using fresh by (simp add: faq_step_def Let_def find_keyed [of ?same ?E ?n, OF same])
    have new: "\<lparr>fc_name = ?n, fc_items = [?item]\<rparr> = ?E' ?n"
    proof -
      from False have "filter (\<lambda>f. faq_category_name f = ?n) faqs = []"
        by (auto simp: filter_empty_conv image_iff)
      then show ?thesis by (simp add: expected_faq_category_def)
    qed
    have "faq_step (map ?E ?ks) faq = map ?E ?ks @ [?E' ?n]"
      by (simp only: step new)
    also have "\<dots> = map ?E' ?ks @ [?E' ?n]"
      by (simp only: other)
    finally show ?thesis using False by (simp add: first_occurrences_snoc)
  qed
qed

lemma faqs_grouping_keyed:
  "faqs_grouping faqs =
   map (expected_faq_category faqs) (first_occurrences (map faq_category_name faqs))"
proof (induction faqs rule: rev_induct)
  case Nil
  then show ?case by (simp add: faqs_grouping_def)
next
  case (snoc faq faqs)
  have "faqs_grouping (faqs @ [faq]) = faq_step (faqs_grouping faqs) faq"
    by (simp add: faqs_grouping_def)
  with snoc show ?case by (simp only: faq_step_keyed)
qed

section \<open>The claims about the menu grouping\<close>

lemmas menu_eval =
  menu_grouping_def menu_step_def Let_def build_item_def badge_spread_def or_else_def
  and_then_def push_item_def Object_values_def is_array_index_def
  example_row_def example_item_def example_category_def

text \<open>
  C1, as the code has it. When the rows come ordered by \<^verbatim>\<open>category_id\<close>, as the
  \<^verbatim>\<open>ORDER BY c.id\<close> of the query delivers them, and every \<^verbatim>\<open>category_id\<close> is an array
  index (an integer from 0 to \<open>2^32 - 2\<close>), a grouping that returns lists the categories
  in the order of the first occurrence of their key among the rows; every category carries
  the name, slug and description of the first row of its key, and its items are the items
  of its rows that have an item, in row order.
\<close>

theorem menu_categories_in_first_occurrence_order:
  assumes "sorted (map category_id rows)"
    and "\<forall>r\<in>set rows. is_array_index (category_id r)"
    and "menu_grouping rows = Inr cats"
  shows "in_first_occurrence_order rows cats"
proof -
  have "values_order (first_occurrences (map category_id rows)) =
        first_occurrences (map category_id rows)"
    using assms(1,2) by (intro values_order_sorted sorted_first_occurrences) auto
  with menu_grouping_groups [OF assms(3)] show ?thesis
    by (simp add: in_first_occurrence_order_def)
qed

text \<open>
  The theorem at the example of the specification: a category with one item, then a
  category without items.
\<close>

theorem menu_categories_in_first_occurrence_order_witness:
  "sorted (map category_id
     [example_row 1 ''A'' (JNum 1) (JStr ''10''), example_row 2 ''B'' JNull JNull]) \<and>
   list_all (\<lambda>r. is_array_index (category_id r))
     [example_row 1 ''A'' (JNum 1) (JStr ''10''), example_row 2 ''B'' JNull JNull] \<and>
   menu_grouping [example_row 1 ''A'' (JNum 1) (JStr ''10''), example_row 2 ''B'' JNull JNull] =
     Inr [example_category ''A'' [example_item ''10''], example_category ''B'' []] \<and>
   in_first_occurrence_order
     [example_row 1 ''A'' (JNum 1) (JStr ''10''), example_row 2 ''B'' JNull JNull]
     [example_category ''A'' [example_item ''10''], example_category ''B'' []]"
proof -
  let ?rows = "[example_row 1 ''A'' (JNum 1) (JStr ''10''), example_row 2 ''B'' JNull JNull]"
  let ?cats = "[example_category ''A'' [example_item ''10''], example_category ''B'' []]"
  have h1: "sorted (map category_id ?rows)"
    by (simp add: example_row_def)
  have h2: "\<forall>r\<in>set ?rows. is_array_index (category_id r)"
    by (simp add: example_row_def is_array_index_def)
  have h3: "menu_grouping ?rows = Inr ?cats"
    by (simp add: menu_eval)
  from menu_categories_in_first_occurrence_order [OF h1 h2 h3] h1 h2 h3 show ?thesis
    by (simp only: list_all_iff)
qed

text \<open>
  C1 as stated fails: the rows of category 2 before the rows of category 1 give the
  category of key 1 first, since \<^verbatim>\<open>Object.values\<close> lists integer keys in ascending order.
\<close>

theorem menu_categories_order_counterexample:
  "menu_grouping [example_row 2 ''B'' JNull JNull, example_row 1 ''A'' JNull JNull] =
     Inr [example_category ''A'' [], example_category ''B'' []] \<and>
   \<not> in_first_occurrence_order
       [example_row 2 ''B'' JNull JNull, example_row 1 ''A'' JNull JNull]
       [example_category ''A'' [], example_category ''B'' []]"
  by (simp add: menu_eval in_first_occurrence_order_def groups_rows_def)

text \<open>
  C2, as the code has it. Whenever the grouping returns, every category of the output has
  exactly as many items as the input has rows of its key with a truthy item identifier
  (not \<^verbatim>\<open>null\<close>, not \<^verbatim>\<open>undefined\<close>, not 0, not the empty string); a category whose rows
  all have a \<^verbatim>\<open>null\<close> item identifier has no items.
\<close>

theorem menu_category_item_count:
  assumes "menu_grouping rows = Inr cats"
  shows "counts_items truthy rows cats"
proof -
  have "length (cat_items c) =
        length (filter (\<lambda>r. category_id r = k \<and> truthy (row_id r)) rows)"
    if "groups_rows rows k c" for c k
  proof -
    from that have "length (map Inr (cat_items c) :: (error + menu_item) list) =
        length (map build_item (filter (\<lambda>r. category_id r = k \<and> truthy (row_id r)) rows))"
      by (simp only: groups_rows_def)
    then show ?thesis by simp
  qed
  with menu_grouping_groups [OF assms] show ?thesis
    unfolding counts_items_def by (rule list_all2_mono)
qed

theorem menu_category_item_count_witness:
  "menu_grouping [example_row 1 ''A'' (JNum 1) (JStr ''10''), example_row 1 ''A'' (JNum 2) (JStr ''12''),
                  example_row 2 ''B'' JNull JNull] =
     Inr [example_category ''A'' [example_item ''10'', example_item ''12''], example_category ''B'' []] \<and>
   counts_items truthy
     [example_row 1 ''A'' (JNum 1) (JStr ''10''), example_row 1 ''A'' (JNum 2) (JStr ''12''),
      example_row 2 ''B'' JNull JNull]
     [example_category ''A'' [example_item ''10'', example_item ''12''], example_category ''B'' []]"
proof -
  let ?rows = "[example_row 1 ''A'' (JNum 1) (JStr ''10''), example_row 1 ''A'' (JNum 2) (JStr ''12''),
                example_row 2 ''B'' JNull JNull]"
  let ?cats = "[example_category ''A'' [example_item ''10'', example_item ''12''], example_category ''B'' []]"
  have h: "menu_grouping ?rows = Inr ?cats"
    by (simp add: menu_eval)
  from menu_category_item_count [OF h] h show ?thesis
    by blast
qed

text \<open>
  C2 as stated fails: a row whose item identifier is 0 carries a non-null identifier, and
  its category comes out without items.
\<close>

theorem menu_category_item_count_counterexample:
  "menu_grouping [example_row 1 ''A'' (JNum 0) (JStr ''10'')] = Inr [example_category ''A'' []] \<and>
   \<not> counts_items non_null [example_row 1 ''A'' (JNum 0) (JStr ''10'')] [example_category ''A'' []]"
  by (simp add: menu_eval counts_items_def values_order_def)

text \<open>
  C3, as the code has it. In the item built for a row, each of image, currency and rating
  is the row's value when that value is truthy, and the fixed default
  (\<^verbatim>\<open>'/img/menu/default.jpg'\<close>, \<^verbatim>\<open>'$'\<close>, 5) otherwise, that is for \<^verbatim>\<open>null\<close>,
  \<^verbatim>\<open>undefined\<close>, the empty string and 0; none of the three is ever \<^verbatim>\<open>null\<close> or
  \<^verbatim>\<open>undefined\<close> in the output.
\<close>

theorem menu_item_defaults:
  assumes "build_item row = Inr item"
  shows "defaulted truthy row item \<and>
         non_null (item_image item) \<and> non_null (item_currency item) \<and> non_null (item_rating item)"
proof -
  have nn: "\<And>v d. non_null d \<Longrightarrow> non_null (or_else v d)"
  proof -
    fix v d assume "non_null d"
    then show "non_null (or_else v d)" by (cases v) (auto simp: or_else_def)
  qed
  from assms have item:
    "item_image item = or_else (row_image row) (JStr ''/img/menu/default.jpg'')"
    "item_currency item = or_else (row_currency row) (JStr ''$'')"
    "item_rating item = or_else (row_rating row) (JNum 5)"
    by (auto simp: build_item_def and_then_Inr_iff)
  then have "defaulted truthy row item"
    by (simp add: defaulted_def or_else_def)
  moreover from item have "non_null (item_image item)" "non_null (item_currency item)"
    "non_null (item_rating item)"
    by (simp_all add: nn)
  ultimately show ?thesis by simp
qed

theorem menu_item_defaults_witness:
  "build_item (example_row 1 ''A'' (JNum 1) (JStr ''10'')) = Inr (example_item ''10'') \<and>
   defaulted truthy (example_row 1 ''A'' (JNum 1) (JStr ''10'')) (example_item ''10'') \<and>
   item_image (example_item ''10'') = JStr ''/img/menu/default.jpg'' \<and>
   item_currency (example_item ''10'') = JStr ''$'' \<and>
   item_rating (example_item ''10'') = JNum 5"
proof -
  have h: "build_item (example_row 1 ''A'' (JNum 1) (JStr ''10'')) = Inr (example_item ''10'')"
    by (simp add: menu_eval)
  from menu_item_defaults [OF h] h show ?thesis
    by (simp add: example_item_def)
qed

text \<open>
  C3 as stated fails: the rating 0 is not \<^verbatim>\<open>null\<close>, and the item comes out with the
  rating 5.
\<close>

theorem menu_item_defaults_counterexample:
  "build_item ((example_row 1 ''A'' (JNum 1) (JStr ''10''))\<lparr>row_rating := JNum 0\<rparr>) =
     Inr (example_item ''10'') \<and>
   item_rating (example_item ''10'') = JNum 5 \<and>
   \<not> defaulted non_null ((example_row 1 ''A'' (JNum 1) (JStr ''10''))\<lparr>row_rating := JNum 0\<rparr>)
       (example_item ''10'')"
  by (simp add: menu_eval defaulted_def)

text \<open>
  C4, as the code has it. The menu grouping returns exactly on the row sequences in which
  every row with a truthy item identifier has a price that is neither \<^verbatim>\<open>null\<close> nor
  \<^verbatim>\<open>undefined\<close> and a badge that is falsy or a string; on every other row sequence it
  throws, and what it throws is a TypeError.
\<close>

theorem menu_grouping_returns_iff:
  "((\<exists>cats. menu_grouping rows = Inr cats) \<longleftrightarrow>
      (\<forall>r\<in>set rows. truthy (row_id r) \<longrightarrow>
         non_null (row_price r) \<and> (truthy (row_badge r) \<longrightarrow> is_string (row_badge r)))) \<and>
   (\<forall>e. menu_grouping rows = Inl e \<longrightarrow> (\<exists>m. e = TypeError m))"
proof
  show "(\<exists>cats. menu_grouping rows = Inr cats) \<longleftrightarrow>
      (\<forall>r\<in>set rows. truthy (row_id r) \<longrightarrow>
         non_null (row_price r) \<and> (truthy (row_badge r) \<longrightarrow> is_string (row_badge r)))"
    by (simp only: menu_grouping_Inr_iff build_item_Inr_iff)
  show "\<forall>e. menu_grouping rows = Inl e \<longrightarrow> (\<exists>m. e = TypeError m)"
    by (auto simp: menu_grouping_def and_then_Inl_iff dest: reduce_menu_step_TypeError)
qed

theorem menu_grouping_returns_iff_witness:
  "list_all
     (\<lambda>r. truthy (row_id r) \<longrightarrow>
        non_null (row_price r) \<and> (truthy (row_badge r) \<longrightarrow> is_string (row_badge r)))
     [example_row 1 ''A'' (JNum 1) (JStr ''10''), example_row 2 ''B'' JNull JNull] \<and>
   (\<exists>cats. menu_grouping [example_row 1 ''A'' (JNum 1) (JStr ''10''),
                          example_row 2 ''B'' JNull JNull] = Inr cats)"
proof -
  let ?rows = "[example_row 1 ''A'' (JNum 1) (JStr ''10''), example_row 2 ''B'' JNull JNull]"
  have h: "\<forall>r\<in>set ?rows. truthy (row_id r) \<longrightarrow>
             non_null (row_price r) \<and> (truthy (row_badge r) \<longrightarrow> is_string (row_badge r))"
    by (simp add: example_row_def)
  with menu_grouping_returns_iff [of ?rows] show ?thesis
    by (simp only: list_all_iff)
qed

text \<open>
  C4 as stated fails: for a row with an item and a \<^verbatim>\<open>null\<close> price,
  \<^verbatim>\<open>row.price.toString()\<close> throws inside the grouping, and the route answers 500 although
  the query returned.
\<close>

theorem menu_grouping_throws_counterexample:
  "menu_grouping [example_row 1 ''A'' (JNum 1) JNull] =
     Inl (TypeError ''Cannot read properties of null (reading 'toString')'') \<and>
   menu_query (answering_pool [] [example_row 1 ''A'' (JNum 1) JNull]) =
     Inr [example_row 1 ''A'' (JNum 1) JNull] \<and>
   menu_handler (answering_pool [] [example_row 1 ''A'' (JNum 1) JNull]) =
     \<lparr>code = 500,
      payload = ErrorMessage ''Cannot read properties of null (reading 'toString')''\<rparr>"
  by (simp add: menu_eval menu_handler_def try_catch_def send_error_def answering_pool_def)

section \<open>The claims about the badge and the decoding\<close>

text \<open>
  C6. In the item built for a row, a badge that is \<^verbatim>\<open>null\<close> or \<^verbatim>\<open>undefined\<close> gives an
  item without a \<^verbatim>\<open>badge\<close> key; a badge that contains the entity \<^verbatim>\<open>&amp;\<close> gives an item
  whose badge has the character \<^verbatim>\<open>&\<close> in the place of the entity, between the decoded
  text before it and the decoded text behind it.
\<close>

theorem badge_absent_or_decoded:
  assumes "build_item row = Inr item"
  shows "(row_badge row = JNull \<or> row_badge row = JUndefined \<longrightarrow> item_badge item = None) \<and>
         (\<forall>a b. row_badge row = JStr (a @ ''&amp;'' @ b) \<longrightarrow>
            item_badge item = Some (JStr (decode_string a @ ''&'' @ decode_string b)))"
proof -
  from assms obtain badge where b: "badge_spread (row_badge row) = Inr badge"
    and i: "item_badge item = badge"
    by (auto simp: build_item_def and_then_Inr_iff)
  have "row_badge row = JNull \<or> row_badge row = JUndefined \<longrightarrow> item_badge item = None"
    using b i by (auto simp: badge_spread_def)
  moreover have "\<forall>a b. row_badge row = JStr (a @ ''&amp;'' @ b) \<longrightarrow>
            item_badge item = Some (JStr (decode_string a @ ''&'' @ decode_string b))"
  proof (intro allI impI)
    fix x y assume s: "row_badge row = JStr (x @ ''&amp;'' @ y)"
    then have "truthy (row_badge row)" by simp
    with b i s have "item_badge item = Some (JStr (decode_string (x @ ''&amp;'' @ y)))"
      by (auto simp: badge_spread_def and_then_def simp del: append.simps)
    then show "item_badge item = Some (JStr (decode_string x @ ''&'' @ decode_string y))"
      by (simp only: decode_string_amp)
  qed
  ultimately show ?thesis by simp
qed

theorem badge_absent_or_decoded_witness:
  "build_item ((example_row 1 ''A'' (JNum 1) (JStr ''10''))\<lparr>row_badge := JStr ''Chef &amp; Co''\<rparr>) =
     Inr ((example_item ''10'')\<lparr>item_badge := Some (JStr ''Chef & Co'')\<rparr>) \<and>
   item_badge ((example_item ''10'')\<lparr>item_badge := Some (JStr ''Chef & Co'')\<rparr>) =
     Some (JStr (decode_string ''Chef '' @ ''&'' @ decode_string '' Co'')) \<and>
   build_item (example_row 1 ''A'' (JNum 1) (JStr ''10'')) = Inr (example_item ''10'') \<and>
   row_badge (example_row 1 ''A'' (JNum 1) (JStr ''10'')) = JNull \<and>
   item_badge (example_item ''10'') = None"
proof -
  let ?row = "(example_row 1 ''A'' (JNum 1) (JStr ''10''))\<lparr>row_badge := JStr ''Chef &amp; Co''\<rparr>"
  let ?item = "(example_item ''10'')\<lparr>item_badge := Some (JStr ''Chef & Co'')\<rparr>"
  have h: "build_item ?row = Inr ?item"
    by (simp add: menu_eval decode_eval)
  have s: "row_badge ?row = JStr (''Chef '' @ ''&amp;'' @ '' Co'')"
    by (simp add: example_row_def)
  have h': "build_item (example_row 1 ''A'' (JNum 1) (JStr ''10'')) = Inr (example_item ''10'')"
    by (simp add: menu_eval)
  have s': "row_badge (example_row 1 ''A'' (JNum 1) (JStr ''10'')) = JNull"
    by (simp add: example_row_def)
  from badge_absent_or_decoded [OF h] s
  have "item_badge ?item = Some (JStr (decode_string ''Chef '' @ ''&'' @ decode_string '' Co''))"
    by blast
  moreover from badge_absent_or_decoded [OF h'] s' have "item_badge (example_item ''10'') = None"
    by blast
  ultimately show ?thesis using h h' s' by blast
qed

text \<open>
  C9. In the item built for a row, the \<^verbatim>\<open>badge\<close> key is absent exactly when the badge of
  the row is falsy: a badge that is present but is the empty string (or 0) gives no key,
  as a \<^verbatim>\<open>null\<close> badge does.
\<close>

theorem badge_key_by_truthiness:
  assumes "build_item row = Inr item"
  shows "item_badge item = None \<longleftrightarrow> \<not> truthy (row_badge row)"
  using assms
  by (auto simp: build_item_def badge_spread_def and_then_Inr_iff split: if_splits)

theorem badge_key_by_truthiness_witness:
  "build_item ((example_row 1 ''A'' (JNum 1) (JStr ''10''))\<lparr>row_badge := JStr []\<rparr>) =
     Inr (example_item ''10'') \<and>
   \<not> truthy (row_badge ((example_row 1 ''A'' (JNum 1) (JStr ''10''))\<lparr>row_badge := JStr []\<rparr>)) \<and>
   item_badge (example_item ''10'') = None"
proof -
  let ?row = "(example_row 1 ''A'' (JNum 1) (JStr ''10''))\<lparr>row_badge := JStr []\<rparr>"
  have h: "build_item ?row = Inr (example_item ''10'')"
    by (simp add: menu_eval)
  have f: "\<not> truthy (row_badge ?row)"
    by (simp add: example_row_def)
  from badge_key_by_truthiness [OF h] f h show ?thesis
    by blast
qed

text \<open>
  C7. \<^verbatim>\<open>decodeHtml\<close> puts the literal character in the place of each of the entities
  \<^verbatim>\<open>&lt;\<close>, \<^verbatim>\<open>&gt;\<close>, \<^verbatim>\<open>&#039;\<close>, \<^verbatim>\<open>&quot;\<close>, \<^verbatim>\<open>&amp;\<close> and of the escaped forms
  backslash \<^verbatim>\<open>u003C\<close>, backslash \<^verbatim>\<open>u003E\<close>, wherever in a string \<open>a @ entity @ b\<close> it stands (with \<open>a\<close>
  and \<open>b\<close> empty: the entity alone is mapped to its character); a string that contains
  none of the seven sequences is returned unchanged; and \<^verbatim>\<open>undefined\<close> is returned as
  \<^verbatim>\<open>undefined\<close>, without a throw.
\<close>

theorem decodeHtml_entities:
  "decodeHtml (JStr (a @ ''&lt;'' @ b)) = Inr (JStr (decode_string a @ ''<'' @ decode_string b)) \<and>
   decodeHtml (JStr (a @ ''&gt;'' @ b)) = Inr (JStr (decode_string a @ ''>'' @ decode_string b)) \<and>
   decodeHtml (JStr (a @ ''&#039;'' @ b)) =
     Inr (JStr (decode_string a @ [CHR 0x27] @ decode_string b)) \<and>
   decodeHtml (JStr (a @ ''&quot;'' @ b)) =
     Inr (JStr (decode_string a @ [CHR 0x22] @ decode_string b)) \<and>
   decodeHtml (JStr (a @ ''&amp;'' @ b)) = Inr (JStr (decode_string a @ ''&'' @ decode_string b)) \<and>
   decodeHtml (JStr (a @ (CHR 0x5C # ''u003C'') @ b)) =
     Inr (JStr (decode_string a @ ''<'' @ decode_string b)) \<and>
   decodeHtml (JStr (a @ (CHR 0x5C # ''u003E'') @ b)) =
     Inr (JStr (decode_string a @ ''>'' @ decode_string b)) \<and>
   ((\<forall>p\<in>set (map fst entities). \<not> sublist p s) \<longrightarrow> decodeHtml (JStr s) = Inr (JStr s)) \<and>
   decodeHtml JUndefined = Inr JUndefined"
proof -
  have "decodeHtml (JStr (a @ (CHR 0x5C # ''u003C'') @ b)) =
        Inr (JStr (decode_string a @ ''<'' @ decode_string b))"
    using decode_string_u003C [of a b] by (simp only: decodeHtml.simps backslash_def)
  moreover have "decodeHtml (JStr (a @ (CHR 0x5C # ''u003E'') @ b)) =
        Inr (JStr (decode_string a @ ''>'' @ decode_string b))"
    using decode_string_u003E [of a b] by (simp only: decodeHtml.simps backslash_def)
  moreover have "(\<forall>p\<in>set (map fst entities). \<not> sublist p s) \<longrightarrow>
        decodeHtml (JStr s) = Inr (JStr s)"
    using decode_string_absent [of s] by (simp only: decodeHtml.simps) blast
  ultimately show ?thesis
    by (simp only: decodeHtml.simps decode_string_lt decode_string_gt decode_string_apos
        decode_string_quot decode_string_amp)
qed

text \<open>Each entity alone, and a plain text.\<close>

theorem decodeHtml_entities_witness:
  "decodeHtml (JStr ''&lt;'') = Inr (JStr ''<'') \<and>
   decodeHtml (JStr ''&gt;'') = Inr (JStr ''>'') \<and>
   decodeHtml (JStr ''&#039;'') = Inr (JStr [CHR 0x27]) \<and>
   decodeHtml (JStr ''&quot;'') = Inr (JStr [CHR 0x22]) \<and>
   decodeHtml (JStr ''&amp;'') = Inr (JStr ''&'') \<and>
   decodeHtml (JStr (CHR 0x5C # ''u003C'')) = Inr (JStr ''<'') \<and>
   decodeHtml (JStr (CHR 0x5C # ''u003E'')) = Inr (JStr ''>'') \<and>
   list_all (\<lambda>p. \<not> sublist p ''Chef's choice'') (map fst entities) \<and>
   decodeHtml (JStr ''Chef's choice'') = Inr (JStr ''Chef's choice'')"
proof -
  have e: "decode_string [] = []"
    by (simp add: decode_eval)
  have h: "\<forall>p\<in>set (map fst entities). \<not> sublist p ''Chef's choice''"
    by (simp add: entities_def backslash_def sublist_Cons_right)
  from decodeHtml_entities [of "[]" "[]" "''Chef's choice''"] h show ?thesis
    by (simp only: e append_Nil append_Nil2 list_all_iff)
qed

section \<open>The claim about the FAQ grouping\<close>

text \<open>
  C5. The FAQ grouping has one category for every category name of the rows, in the order
  of the first occurrence of the names, no name twice; the items of a category are the
  title and text pairs of all rows of that name, in row order.
\<close>

theorem faqs_grouped_by_name:
  "faqs_grouping faqs =
     map (expected_faq_category faqs) (first_occurrences (map faq_category_name faqs)) \<and>
   distinct (map fc_name (faqs_grouping faqs))"
proof -
  have "map fc_name (map (expected_faq_category faqs) ks) = ks" for ks
    by (induction ks) (auto simp: expected_faq_category_def)
  then show ?thesis
    by (simp only: faqs_grouping_keyed distinct_first_occurrences)
qed

theorem faqs_grouped_by_name_witness:
  "faqs_grouping [example_faq ''Orders'' ''How to order'', example_faq ''Payment'' ''Cards'',
                  example_faq ''Orders'' ''How to cancel''] =
     [\<lparr>fc_name = JStr ''Orders'',
       fc_items = [\<lparr>fi_title = JStr ''How to order'', fi_text = JNull\<rparr>,
                   \<lparr>fi_title = JStr ''How to cancel'', fi_text = JNull\<rparr>]\<rparr>,
      \<lparr>fc_name = JStr ''Payment'',
       fc_items = [\<lparr>fi_title = JStr ''Cards'', fi_text = JNull\<rparr>]\<rparr>]"
  using faqs_grouped_by_name
    [of "[example_faq ''Orders'' ''How to order'', example_faq ''Payment'' ''Cards'',
          example_faq ''Orders'' ''How to cancel'']"]
  by (simp add: expected_faq_category_def example_faq_def)

section \<open>The claims about the routes\<close>

lemmas route_eval =
  try_catch_def send_error_def and_then_def users_handler_def images_handler_def
  faqs_handler_def menu_handler_def reviews_handler_def menu_categories_handler_def
  db_health_handler_def health_handler_def

text \<open>
  C8. When the query of a data route throws, the route answers with status 500 and the body
  \<^verbatim>\<open>{ error: message }\<close> that carries the message of the thrown error; when
  \<^verbatim>\<open>getConnection\<close> or \<^verbatim>\<open>ping\<close> throws, \<^verbatim>\<open>/api/db-health\<close> answers with status 500 and
  \<^verbatim>\<open>{ status: 'ERROR', message }\<close>. When nothing in the handler throws, the status is 200
  and the body is the value the handler returns.
\<close>

theorem routes_answer_500_on_throw:
  "(users_query db = Inl e \<longrightarrow>
      handle Users db = \<lparr>code = 500, payload = ErrorMessage (message e)\<rparr>) \<and>
   (images_query db = Inl e \<longrightarrow>
      handle Images db = \<lparr>code = 500, payload = ErrorMessage (message e)\<rparr>) \<and>
   (faqs_query db = Inl e \<longrightarrow>
      handle Faqs db = \<lparr>code = 500, payload = ErrorMessage (message e)\<rparr>) \<and>
   (menu_query db = Inl e \<longrightarrow>
      handle Menu db = \<lparr>code = 500, payload = ErrorMessage (message e)\<rparr>) \<and>
   (reviews_query db = Inl e \<longrightarrow>
      handle Reviews db = \<lparr>code = 500, payload = ErrorMessage (message e)\<rparr>) \<and>
   (menu_categories_query db = Inl e \<longrightarrow>
      handle MenuCategoriesRoute db = \<lparr>code = 500, payload = ErrorMessage (message e)\<rparr>) \<and>
   (getConnection db = Inl e \<or> (getConnection db = Inr u \<and> ping db = Inl e) \<longrightarrow>
      handle DbHealth db = \<lparr>code = 500, payload = StatusMessage ''ERROR'' (message e)\<rparr>) \<and>
   (users_query db = Inr rows \<longrightarrow> handle Users db = \<lparr>code = 200, payload = Rows rows\<rparr>) \<and>
   (images_query db = Inr rows \<longrightarrow> handle Images db = \<lparr>code = 200, payload = Rows rows\<rparr>) \<and>
   (faqs_query db = Inr faqs \<longrightarrow>
      handle Faqs db = \<lparr>code = 200, payload = FaqCategories (faqs_grouping faqs)\<rparr>) \<and>
   (menu_query db = Inr mrows \<and> menu_grouping mrows = Inr cats \<longrightarrow>
      handle Menu db = \<lparr>code = 200, payload = MenuCategories cats\<rparr>) \<and>
   (reviews_query db = Inr rows \<longrightarrow> handle Reviews db = \<lparr>code = 200, payload = Rows rows\<rparr>) \<and>
   (menu_categories_query db = Inr rows \<longrightarrow>
      handle MenuCategoriesRoute db = \<lparr>code = 200, payload = Rows rows\<rparr>) \<and>
   (getConnection db = Inr u \<and> ping db = Inr v \<and> release db = Inr w \<longrightarrow>
      handle DbHealth db =
        \<lparr>code = 200, payload = StatusMessage ''OK'' ''Database connection is successful''\<rparr>) \<and>
   code (handle Health db) = 200"
  by (simp add: route_eval)

text \<open>
  The theorem at a database that throws \<^verbatim>\<open>connect ECONNREFUSED\<close> on every call, and at one
  that answers every call.
\<close>

theorem routes_answer_500_on_throw_witness:
  "menu_query (failing_pool (Error ''connect ECONNREFUSED'')) = Inl (Error ''connect ECONNREFUSED'') \<and>
   handle Menu (failing_pool (Error ''connect ECONNREFUSED'')) =
     \<lparr>code = 500, payload = ErrorMessage ''connect ECONNREFUSED''\<rparr> \<and>
   getConnection (failing_pool (Error ''connect ECONNREFUSED'')) = Inl (Error ''connect ECONNREFUSED'') \<and>
   handle DbHealth (failing_pool (Error ''connect ECONNREFUSED'')) =
     \<lparr>code = 500, payload = StatusMessage ''ERROR'' ''connect ECONNREFUSED''\<rparr> \<and>
   menu_query (answering_pool [] [example_row 2 ''B'' JNull JNull]) =
     Inr [example_row 2 ''B'' JNull JNull] \<and>
   menu_grouping [example_row 2 ''B'' JNull JNull] = Inr [example_category ''B'' []] \<and>
   handle Menu (answering_pool [] [example_row 2 ''B'' JNull JNull]) =
     \<lparr>code = 200, payload = MenuCategories [example_category ''B'' []]\<rparr> \<and>
   handle DbHealth (answering_pool [] [example_row 2 ''B'' JNull JNull]) =
     \<lparr>code = 200, payload = StatusMessage ''OK'' ''Database connection is successful''\<rparr>"
proof -
  let ?e = "Error ''connect ECONNREFUSED''"
  let ?rows = "[example_row 2 ''B'' JNull JNull]"
  have f1: "menu_query (failing_pool ?e) = Inl ?e"
    and f2: "getConnection (failing_pool ?e) = Inl ?e"
    by (simp_all add: failing_pool_def)
  have a1: "menu_query (answering_pool [] ?rows) = Inr ?rows"
    and a2: "getConnection (answering_pool [] ?rows) = Inr ()"
    and a3: "ping (answering_pool [] ?rows) = Inr ()"
    and a4: "release (answering_pool [] ?rows) = Inr ()"
    by (simp_all add: answering_pool_def)
  have g: "menu_grouping ?rows = Inr [example_category ''B'' []]"
    by (simp add: menu_eval)
  have m: "message ?e = ''connect ECONNREFUSED''"
    by simp
  from routes_answer_500_on_throw [of "failing_pool ?e" ?e] f1 f2
  have "handle Menu (failing_pool ?e) = \<lparr>code = 500, payload = ErrorMessage (message ?e)\<rparr>"
    and "handle DbHealth (failing_pool ?e) =
           \<lparr>code = 500, payload = StatusMessage ''ERROR'' (message ?e)\<rparr>"
    by blast+
  moreover from routes_answer_500_on_throw
    [of "answering_pool [] ?rows" _ _ _ _ ?rows "[example_category ''B'' []]" "()" "()"] a1 a2 a3 a4 g
  have "handle Menu (answering_pool [] ?rows) =
          \<lparr>code = 200, payload = MenuCategories [example_category ''B'' []]\<rparr>"
    and "handle DbHealth (answering_pool [] ?rows) =
          \<lparr>code = 200, payload = StatusMessage ''OK'' ''Database connection is successful''\<rparr>"
    by blast+
  ultimately show ?thesis using f1 f2 a1 g
    by (simp only: m)
qed

text \<open>
  C10. \<^verbatim>\<open>/api/health\<close> answers \<^verbatim>\<open>{ status: 'OK' }\<close> with status 200 whatever the database
  does: the handler does not read the pool, and no outcome of the pool changes its answer.
\<close>

theorem health_is_constant:
  "handle Health db = \<lparr>code = 200, payload = Status ''OK''\<rparr>"
  by (simp add: health_handler_def)

text \<open>The answer at a database that throws on every call.\<close>

theorem health_is_constant_witness:
  "handle Health (failing_pool (Error ''connect ECONNREFUSED'')) =
     \<lparr>code = 200, payload = Status ''OK''\<rparr>"
  by (rule health_is_constant)

end
